theory Spec2Isabelle
  imports Main "HOL-Library.Sublist"
begin

section \<open>Python text primitives\<close>

text \<open>
  A Python \<open>str\<close> is modelled as a \<open>string\<close> in which every \<open>char\<close> stands for one
  Python character (one code point), so \<open>length\<close> is Python's \<open>len\<close>. The model covers
  the characters with code points below 256; on that range the character classes below
  are the ones of \<open>str.isspace\<close>, \<open>str.lower\<close> and the regular-expression class
  \<open>\w\<close> of Python 3.
\<close>

definition code_point :: "char \<Rightarrow> nat" where
  "code_point c = of_char c"

definition is_space :: "char \<Rightarrow> bool" where
  \<comment> \<open>\<open>str.isspace\<close>, the characters that \<open>str.strip()\<close> removes\<close>
  "is_space c =
     (let n = code_point c
      in (9 \<le> n \<and> n \<le> 13) \<or> (28 \<le> n \<and> n \<le> 32) \<or> n = 133 \<or> n = 160)"

definition is_ascii_letter :: "char \<Rightarrow> bool" where
  \<comment> \<open>the class \<open>[a-zA-Z]\<close>\<close>
  "is_ascii_letter c =
     (let n = code_point c in (97 \<le> n \<and> n \<le> 122) \<or> (65 \<le> n \<and> n \<le> 90))"

definition is_word_char :: "char \<Rightarrow> bool" where
  \<comment> \<open>the class \<open>\w\<close> of a \<open>str\<close> pattern: alphanumeric characters and the underscore\<close>
  "is_word_char c =
     (let n = code_point c
      in (48 \<le> n \<and> n \<le> 57) \<or> (65 \<le> n \<and> n \<le> 90) \<or> n = 95 \<or> (97 \<le> n \<and> n \<le> 122)
         \<or> n = 170 \<or> n = 178 \<or> n = 179 \<or> n = 181 \<or> n = 185 \<or> n = 186
         \<or> (188 \<le> n \<and> n \<le> 190) \<or> (192 \<le> n \<and> n \<le> 214) \<or> (216 \<le> n \<and> n \<le> 246)
         \<or> (248 \<le> n \<and> n \<le> 255))"

definition lower_char :: "char \<Rightarrow> char" where
  "lower_char c =
     (let n = code_point c
      in if (65 \<le> n \<and> n \<le> 90) \<or> (192 \<le> n \<and> n \<le> 222 \<and> n \<noteq> 215)
         then char_of (n + 32) else c)"

definition py_lower :: "string \<Rightarrow> string" where
  \<comment> \<open>\<open>s.lower()\<close>\<close>
  "py_lower s = map lower_char s"

definition py_strip :: "string \<Rightarrow> string" where
  \<comment> \<open>\<open>s.strip()\<close>\<close>
  "py_strip s = rev (dropWhile is_space (rev (dropWhile is_space s)))"

fun startswith :: "string \<Rightarrow> string \<Rightarrow> bool" where
  \<comment> \<open>\<open>s.startswith(p)\<close>\<close>
  "startswith s [] = True"
| "startswith [] (p # ps) = False"
| "startswith (c # cs) (p # ps) = (c = p \<and> startswith cs ps)"

fun py_in :: "string \<Rightarrow> string \<Rightarrow> bool" where
  \<comment> \<open>\<open>needle in s\<close>\<close>
  "py_in needle [] = (needle = [])"
| "py_in needle (c # cs) = (startswith (c # cs) needle \<or> py_in needle cs)"

fun py_join :: "string \<Rightarrow> string list \<Rightarrow> string" where
  \<comment> \<open>\<open>sep.join(xs)\<close>\<close>
  "py_join sep [] = []"
| "py_join sep [x] = x"
| "py_join sep (x # y # ys) = x @ sep @ py_join sep (y # ys)"

definition digit_char :: "nat \<Rightarrow> char" where
  "digit_char d = char_of (48 + d)"

fun str_nat :: "nat \<Rightarrow> string" where
  \<comment> \<open>\<open>str(n)\<close> of a non-negative integer: its decimal digits\<close>
  "str_nat n = (if n < 10 then [digit_char n] else str_nat (n div 10) @ [digit_char (n mod 10)])"

declare str_nat.simps [simp del]

datatype error = ParseFault | IndexError

definition py_last :: "'a list \<Rightarrow> error + 'a" where
  \<comment> \<open>\<open>xs[-1]\<close>, which raises IndexError on an empty list\<close>
  "py_last xs = (if xs = [] then Inl IndexError else Inr (last xs))"

section \<open>Uploaded documents\<close>

text \<open>
  The parsing of the three office formats is done by the libraries the program imports.
  The model starts from what they hand over: for a Word file the paragraphs with their
  text and the name of their style (\<open>None\<close> when the paragraph has no style), for a
  workbook the sheets with their name and the flattened list of cell strings
  (\<open>df.astype(str).fillna("").values.flatten().tolist()\<close>), for a presentation the slides
  with their shapes, each with its text when it has a \<open>text\<close> attribute. Opening a file
  with the reader of another format fails inside the library; that is \<open>ParseFault\<close>.
\<close>

record docx_paragraph =
  para_text :: string
  para_style :: "string option"

type_synonym document = "docx_paragraph list"

record sheet =
  sheet_name :: string
  flat_values :: "string list"

type_synonym shape = "string option"

type_synonym slide = "shape list"

datatype upload =
    WordFile document
  | ExcelFile "sheet list"
  | PowerPointFile "slide list"
  | OtherFile

definition SHORT_PARAGRAPH_LIMIT :: nat where
  "SHORT_PARAGRAPH_LIMIT = 260"

subsection \<open>Text extraction helpers\<close>

definition extract_text_from_docx :: "upload \<Rightarrow> error + (document option \<times> string list)" where
  "extract_text_from_docx file =
     (case file of
        WordFile doc \<Rightarrow>
          Inr (Some doc, map py_strip (filter (\<lambda>t. py_strip t \<noteq> []) (map para_text doc)))
      | _ \<Rightarrow> Inl ParseFault)"

fun xlsx_blocks :: "sheet list \<Rightarrow> string list \<Rightarrow> string list" where
  \<comment> \<open>the loop over \<open>xls.sheet_names\<close>, with \<open>text_blocks\<close> as accumulator\<close>
  "xlsx_blocks [] text_blocks = text_blocks"
| "xlsx_blocks (sh # rest) text_blocks =
     xlsx_blocks rest
       ((text_blocks @ [''Sheet: '' @ sheet_name sh])
          @ filter (\<lambda>v. py_strip v \<noteq> []) (flat_values sh))"

definition extract_text_from_xlsx :: "upload \<Rightarrow> error + (document option \<times> string list)" where
  "extract_text_from_xlsx file =
     (case file of
        ExcelFile sheets \<Rightarrow> Inr (None, xlsx_blocks sheets [])
      | _ \<Rightarrow> Inl ParseFault)"

fun shape_texts :: "shape list \<Rightarrow> string list \<Rightarrow> string list" where
  \<comment> \<open>the loop over \<open>slide.shapes\<close>, with \<open>slide_text\<close> as accumulator\<close>
  "shape_texts [] slide_text = slide_text"
| "shape_texts (None # rest) slide_text = shape_texts rest slide_text"
| "shape_texts (Some t # rest) slide_text =
     shape_texts rest (if py_strip t \<noteq> [] then slide_text @ [py_strip t] else slide_text)"

fun pptx_blocks :: "nat \<Rightarrow> slide list \<Rightarrow> string list \<Rightarrow> string list" where
  \<comment> \<open>the loop over \<open>enumerate(prs.slides, start=1)\<close>, with \<open>text_blocks\<close> as accumulator\<close>
  "pptx_blocks slide_idx [] text_blocks = text_blocks"
| "pptx_blocks slide_idx (sl # rest) text_blocks =
     (let slide_text = shape_texts sl []
      in pptx_blocks (slide_idx + 1) rest
           (if slide_text \<noteq> []
            then (text_blocks @ [''Slide '' @ str_nat slide_idx @ '':'']) @ slide_text
            else text_blocks))"

definition extract_text_from_pptx :: "upload \<Rightarrow> error + (document option \<times> string list)" where
  "extract_text_from_pptx file =
     (case file of
        PowerPointFile slides \<Rightarrow> Inr (None, pptx_blocks 1 slides [])
      | _ \<Rightarrow> Inl ParseFault)"

subsection \<open>Structural analysis helpers\<close>

definition count_headings_docx :: "document option \<Rightarrow> nat" where
  "count_headings_docx doc =
     (case doc of
        None \<Rightarrow> 0
      | Some ps \<Rightarrow>
          length (filter (\<lambda>p. case para_style p of
                                None \<Rightarrow> False
                              | Some name \<Rightarrow> startswith name ''Heading'') ps))"

definition has_bullets_docx :: "document option \<Rightarrow> bool" where
  "has_bullets_docx doc =
     (case doc of
        None \<Rightarrow> False
      | Some ps \<Rightarrow>
          list_ex (\<lambda>p. py_in ''List'' (case para_style p of None \<Rightarrow> [] | Some name \<Rightarrow> name)) ps)"

definition find_short_paragraphs :: "string list \<Rightarrow> string list" where
  "find_short_paragraphs paragraphs = filter (\<lambda>p. length p < SHORT_PARAGRAPH_LIMIT) paragraphs"

subsection \<open>The pattern \<open>\b[a-zA-Z]{3,}\b\<close>\<close>

text \<open>
  \<open>re.findall\<close> scans the text from left to right. At each position it tries the
  pattern: a word boundary, then as many letters as possible but at least three, then a
  word boundary, giving letters back one at a time while the closing boundary fails. After
  a match the scan goes on where the match ended, otherwise one character further. A
  position is a word boundary when exactly one of its two neighbours is a \<open>\w\<close>
  character; the outside of the text counts as not \<open>\w\<close>.
\<close>

definition word_side :: "char option \<Rightarrow> bool" where
  "word_side x = (case x of None \<Rightarrow> False | Some c \<Rightarrow> is_word_char c)"

definition at_boundary :: "char option \<Rightarrow> char option \<Rightarrow> bool" where
  "at_boundary prev next = (word_side prev \<noteq> word_side next)"

definition char_at :: "string \<Rightarrow> nat \<Rightarrow> char option" where
  "char_at s i = (if i < length s then Some (s ! i) else None)"

fun try_ends :: "string \<Rightarrow> nat \<Rightarrow> nat option" where
  \<comment> \<open>the candidate lengths of a match at the head of \<open>s\<close>, longest first\<close>
  "try_ends s 0 = None"
| "try_ends s (Suc k) =
     (if Suc k < 3 then None
      else if at_boundary (char_at s k) (char_at s (Suc k)) then Some (Suc k)
      else try_ends s k)"

definition match_at :: "char option \<Rightarrow> string \<Rightarrow> nat option" where
  \<comment> \<open>the length of the match at the head of \<open>s\<close>, the character before it being \<open>prev\<close>\<close>
  "match_at prev s =
     (if at_boundary prev (char_at s 0)
      then try_ends s (length (takeWhile is_ascii_letter s))
      else None)"

function findall :: "char option \<Rightarrow> string \<Rightarrow> string list" where
  "findall prev [] = []"
| "findall prev (c # cs) =
     (case match_at prev (c # cs) of
        None \<Rightarrow> findall (Some c) cs
      | Some k \<Rightarrow> take k (c # cs) # findall (char_at (c # cs) (k - 1)) (drop k (c # cs)))"
  by pat_completeness auto
termination
proof (relation "measure (\<lambda>(prev, s). length s)")
  show "wf (measure (\<lambda>(prev, s). length s))" by simp
next
  fix prev :: "char option" and c :: char and cs :: string
  show "((Some c, cs), (prev, c # cs)) \<in> measure (\<lambda>(prev, s). length s)" by simp
next
  fix prev :: "char option" and c :: char and cs :: string and k :: nat
  assume m: "match_at prev (c # cs) = Some k"
  have pos: "try_ends s n = Some j \<Longrightarrow> 0 < j" for s n j
    by (induction n) (auto split: if_splits)
  from m have "0 < k"
    by (auto simp: match_at_def split: if_splits dest: pos)
  then show "((char_at (c # cs) (k - 1), drop k (c # cs)), (prev, c # cs))
               \<in> measure (\<lambda>(prev, s). length s)"
    by simp
qed

declare findall.simps(2) [simp del]

fun counter_add :: "(string \<times> nat) list \<Rightarrow> string \<Rightarrow> (string \<times> nat) list" where
  \<comment> \<open>\<open>counts[w] += 1\<close> on a dictionary, which keeps its keys in insertion order\<close>
  "counter_add [] w = [(w, 1)]"
| "counter_add ((k, c) # rest) w =
     (if k = w then (k, c + 1) # rest else (k, c) # counter_add rest w)"

definition Counter :: "string list \<Rightarrow> (string \<times> nat) list" where
  \<comment> \<open>\<open>Counter(words)\<close>, as its list of items\<close>
  "Counter words = foldl counter_add [] words"

definition find_spelling_issues :: "string list \<Rightarrow> string list" where
  "find_spelling_issues paragraphs =
     (let text = py_lower (py_join '' '' paragraphs);
          words = findall None text;
          counts = Counter words
      in map fst (filter (\<lambda>(w, c). c \<ge> 3) counts))"

subsection \<open>The SWAN engine\<close>

record report =
  strengths :: "string list"
  weaknesses :: "string list"
  actions :: "string list"
  next_steps :: "string list"

definition extract_by_ext ::
  "upload \<Rightarrow> string \<Rightarrow> (error + (document option \<times> string list)) option" where
  \<comment> \<open>the \<open>if/elif\<close> chain on the extension; \<open>None\<close> is its \<open>else\<close> branch\<close>
  "extract_by_ext file ext =
     (if ext = ''.docx'' then Some (extract_text_from_docx file)
      else if ext = ''.xlsx'' then Some (extract_text_from_xlsx file)
      else if ext = ''.pptx'' then Some (extract_text_from_pptx file)
      else None)"

definition swan_checks :: "string \<Rightarrow> document option \<Rightarrow> string list \<Rightarrow> error + report" where
  \<comment> \<open>the body of \<open>run_swan_analysis\<close> from \<open>strengths = []\<close> to its last \<open>return\<close>\<close>
  "swan_checks ext doc paragraphs =
     (let strengths0 = [];
          strengths1 =
            (if ext = ''.docx'' then
               (let s = (if count_headings_docx doc \<ge> 1
                         then strengths0 @ [''You have used headings to organise your work.'']
                         else strengths0)
                in if has_bullets_docx doc
                   then s @ [''Bullet points help make your ideas clear and easy to read.'']
                   else s)
             else strengths0);
          strengths2 =
            (if ext \<in> set [''.xlsx'', ''.pptx''] then
               (let s = (if list_ex (\<lambda>p. py_in ''sheet:'' (py_lower p)) paragraphs
                         then strengths1 @ [''Your work is organised into clear sections or sheets.'']
                         else strengths1)
                in if list_ex (\<lambda>p. py_in ''slide'' (py_lower p)) paragraphs
                   then s @ [''Your slides are clearly separated and labelled.'']
                   else s)
             else strengths1);
          short_paras = find_short_paragraphs paragraphs;
          strengths3 =
            (if short_paras = []
             then strengths2 @ [''Most of your sections are developed with enough detail.'']
             else strengths2);
          (weaknesses1, actions1) =
            (if short_paras \<noteq> []
             then ([] @ [''Some sections are very short and lack detail.''],
                   [] @ [''Action: Choose one short section and add at least one example or explanation.''])
             else ([], []))
      in case py_last paragraphs of
           Inl e \<Rightarrow> Inl e
         | Inr last_block \<Rightarrow>
             (let (weaknesses2, actions2) =
                    (if length last_block < SHORT_PARAGRAPH_LIMIT
                     then (weaknesses1 @ [''There is no clear conclusion at the end of your work.''],
                           actions1 @ [''Action: Add a short conclusion that summarises your key points and links back to the question or purpose.''])
                     else (weaknesses1, actions1));
                  spelling_issues = find_spelling_issues paragraphs;
                  (weaknesses3, actions3) =
                    (if spelling_issues \<noteq> []
                     then (weaknesses2 @ [''The same word or phrase is repeated many times, which may be a spelling or vocabulary issue.''],
                           actions2 @ [''Action: Review repeated words and check their spelling or replace some with alternatives.''])
                     else (weaknesses2, actions2));
                  next_steps3 =
                    (([] @ [''Read your work aloud to check that it flows logically and makes sense.''])
                       @ [''Compare your structure to a model answer or exemplar to see how you could improve organisation.''])
                       @ [''Ask a peer or teacher to highlight one section that could be clearer, then rewrite it.'']
              in Inr \<lparr>strengths = strengths3, weaknesses = weaknesses3,
                       actions = actions3, next_steps = next_steps3\<rparr>))"

definition run_swan_analysis :: "upload \<Rightarrow> string \<Rightarrow> error + report" where
  "run_swan_analysis file ext =
     (case extract_by_ext file ext of
        None \<Rightarrow>
          Inr \<lparr>strengths = [], weaknesses = [''Unsupported file type.''],
               actions = [], next_steps = []\<rparr>
      | Some (Inl e) \<Rightarrow> Inl e
      | Some (Inr (doc, paragraphs)) \<Rightarrow>
          if paragraphs = []
          then Inr \<lparr>strengths = [], weaknesses = [''No readable content was found in the file.''],
                    actions = [], next_steps = []\<rparr>
          else swan_checks ext doc paragraphs)"

subsection \<open>The downloadable report\<close>

definition nl :: string where
  \<comment> \<open>the string \<open>"\n"\<close>\<close>
  "nl = [CHR 0x0A]"

definition dash_entry :: "string \<Rightarrow> string" where
  \<comment> \<open>the f-string \<open>f"- {s}"\<close>\<close>
  "dash_entry s = ''- '' @ s"

definition report_text :: "string \<Rightarrow> report \<Rightarrow> string" where
  \<comment> \<open>the string built for the download button, \<open>name\<close> being \<open>uploaded.name\<close>\<close>
  "report_text name r =
     (let t0 = (''SWAN Feedback Report: '' @ name) @ nl;
          t1 = t0 @ ((replicate 30 CHR ''='' @ nl) @ nl);
          t2 = t1 @ ((((''STRENGTHS:'' @ nl) @ py_join nl (map dash_entry (strengths r))) @ nl) @ nl);
          t3 = t2 @ ((((''WEAKNESSES:'' @ nl) @ py_join nl (map dash_entry (weaknesses r))) @ nl) @ nl);
          t4 = t3 @ ((((''ACTIONS:'' @ nl) @ py_join nl (map dash_entry (actions r))) @ nl) @ nl);
          t5 = t4 @ ((''NEXT STEPS:'' @ nl) @ py_join nl (map dash_entry (next_steps r)))
      in t5)"

section \<open>Notions used in the statements\<close>



text \<open>
  The lines of the downloadable report: a title line, a line of thirty equals signs and an
  empty line, then the four sections in the order STRENGTHS, WEAKNESSES, ACTIONS,
  NEXT STEPS, separated by an empty line. A section is its heading followed by one line
  "- <entry>" for every entry of its list; joining an empty list gives the empty string,
  which shows as one empty line. \<open>split_nl\<close> is \<open>s.split("\n")\<close>.
\<close>

definition section_lines :: "string \<Rightarrow> string list \<Rightarrow> string list" where
  "section_lines heading entries =
     heading # (if entries = [] then [[]] else map dash_entry entries)"

definition report_lines :: "string \<Rightarrow> report \<Rightarrow> string list" where
  "report_lines name r =
     [''SWAN Feedback Report: '' @ name, replicate 30 CHR ''='', []]
       @ section_lines ''STRENGTHS:'' (strengths r) @ [[]]
       @ section_lines ''WEAKNESSES:'' (weaknesses r) @ [[]]
       @ section_lines ''ACTIONS:'' (actions r) @ [[]]
       @ section_lines ''NEXT STEPS:'' (next_steps r)"

fun split_nl :: "string \<Rightarrow> string list" where
  "split_nl [] = [[]]"
| "split_nl (c # cs) =
     (if c = CHR 0x0A then [] # split_nl cs
      else (case split_nl cs of [] \<Rightarrow> [[c]] | l # ls \<Rightarrow> (c # l) # ls))"

text \<open>
  Words of a text. \<open>runs P s\<close> cuts \<open>s\<close> at every character that does not satisfy
  \<open>P\<close>; its non-empty elements are the maximal runs of \<open>P\<close>-characters.
  \<open>alphabetic_runs\<close> follows the words of the specification: the runs of letters of
  length at least 3. \<open>word_tokens\<close> are the runs of \<open>\w\<close> characters that consist of
  letters only and have length at least 3. \<open>tally\<close> reads a count in a list of items.
\<close>

fun runs :: "(char \<Rightarrow> bool) \<Rightarrow> string \<Rightarrow> string list" where
  "runs P [] = [[]]"
| "runs P (c # cs) =
     (if P c then (case runs P cs of [] \<Rightarrow> [[c]] | l # ls \<Rightarrow> (c # l) # ls)
      else [] # runs P cs)"

definition word_tokens :: "string \<Rightarrow> string list" where
  "word_tokens s =
     filter (\<lambda>w. 3 \<le> length w \<and> list_all is_ascii_letter w) (runs is_word_char s)"

definition alphabetic_runs :: "string \<Rightarrow> string list" where
  "alphabetic_runs s = filter (\<lambda>w. 3 \<le> length w) (runs is_ascii_letter s)"

definition ok_token :: "string \<Rightarrow> bool" where
  "ok_token w = (3 \<le> length w \<and> list_all is_ascii_letter w)"

definition tally :: "(string \<times> nat) list \<Rightarrow> string \<Rightarrow> nat" where
  "tally kvs w = (case map_of kvs w of None \<Rightarrow> 0 | Some c \<Rightarrow> c)"

section \<open>Properties\<close>

subsection \<open>The dispatcher and its short circuits\<close>


lemma run_analysed:
  assumes "extract_by_ext file ext = Some (Inr (doc, ps))" and "ps \<noteq> []"
  shows "run_swan_analysis file ext = swan_checks ext doc ps"
  using assms by (simp add: run_swan_analysis_def)













text \<open>
  C6. \<open>find_short_paragraphs\<close> returns exactly the subsequence of the blocks whose length
  is strictly below the limit of 260 characters: it keeps the order of the blocks, a
  block is in the result if and only if it is a block shorter than 260, so a block of
  exactly 260 characters is not in the result and a block of 259 characters is.
\<close>

theorem find_short_paragraphs_strict:
  "find_short_paragraphs ps = filter (\<lambda>p. length p < 260) ps
   \<and> subseq (find_short_paragraphs ps) ps
   \<and> (\<forall>p. p \<in> set (find_short_paragraphs ps) \<longleftrightarrow> p \<in> set ps \<and> length p < 260)
   \<and> (\<forall>p. length p = 260 \<longrightarrow> p \<notin> set (find_short_paragraphs ps))
   \<and> (\<forall>p. p \<in> set ps \<and> length p = 259 \<longrightarrow> p \<in> set (find_short_paragraphs ps))"
  by (auto simp: find_short_paragraphs_def SHORT_PARAGRAPH_LIMIT_def)

theorem find_short_paragraphs_strict_witness:
  "length (replicate 260 CHR ''a'') = 260
   \<and> replicate 260 CHR ''a'' \<notin> set (find_short_paragraphs [replicate 260 CHR ''a'', replicate 259 CHR ''b''])
   \<and> replicate 259 CHR ''b'' \<in> set [replicate 260 CHR ''a'', replicate 259 CHR ''b'']
   \<and> length (replicate 259 CHR ''b'') = 259
   \<and> replicate 259 CHR ''b'' \<in> set (find_short_paragraphs [replicate 260 CHR ''a'', replicate 259 CHR ''b''])"
proof -
  let ?ps = "[replicate 260 CHR ''a'', replicate 259 CHR ''b'']"
  note t = find_short_paragraphs_strict [of ?ps]
  from t have a: "\<forall>p. length p = 260 \<longrightarrow> p \<notin> set (find_short_paragraphs ?ps)"
    by (elim conjE)
  from t have b: "\<forall>p. p \<in> set ?ps \<and> length p = 259 \<longrightarrow> p \<in> set (find_short_paragraphs ?ps)"
    by (elim conjE)
  have la: "length (replicate 260 CHR ''a'') = 260" and lb: "length (replicate 259 CHR ''b'') = 259"
    by simp_all
  have mb: "replicate 259 CHR ''b'' \<in> set ?ps" by simp
  from a la have "replicate 260 CHR ''a'' \<notin> set (find_short_paragraphs ?ps)" by blast
  moreover from b mb lb have "replicate 259 CHR ''b'' \<in> set (find_short_paragraphs ?ps)" by blast
  ultimately show ?thesis using la lb mb by blast
qed

text \<open>
  C3. For an extension other than \<open>.docx\<close>, \<open>.xlsx\<close> and \<open>.pptx\<close> the analysis returns
  no strengths, the single weakness "Unsupported file type.", no actions and no next
  steps, whatever the file is: nothing is extracted and no check is run.
\<close>

theorem unsupported_extension_short_circuit:
  "ext \<notin> {''.docx'', ''.xlsx'', ''.pptx''} \<Longrightarrow>
   run_swan_analysis file ext =
     Inr \<lparr>strengths = [], weaknesses = [''Unsupported file type.''],
          actions = [], next_steps = []\<rparr>"
  by (simp add: run_swan_analysis_def extract_by_ext_def)

theorem unsupported_extension_short_circuit_witness:
  "''.txt'' \<notin> {''.docx'', ''.xlsx'', ''.pptx''}
   \<and> run_swan_analysis OtherFile ''.txt'' =
       Inr \<lparr>strengths = [], weaknesses = [''Unsupported file type.''],
            actions = [], next_steps = []\<rparr>"
  using unsupported_extension_short_circuit [of "''.txt''" OtherFile]
  by simp












subsection \<open>Marker blocks of workbooks and presentations\<close>

lemma lower_sheet_marker: "py_lower (''Sheet: '' @ name) = ''sheet: '' @ py_lower name"
proof -
  have "map lower_char ''Sheet: '' = ''sheet: ''" by code_simp
  then show ?thesis by (simp add: py_lower_def)
qed

lemma lower_slide_marker: "py_lower (''Slide '' @ rest) = ''slide '' @ py_lower rest"
proof -
  have "map lower_char ''Slide '' = ''slide ''" by code_simp
  then show ?thesis by (simp add: py_lower_def)
qed

lemma sheet_marker_matches: "py_in ''sheet:'' (py_lower (''Sheet: '' @ name))"
  unfolding lower_sheet_marker by simp

lemma slide_marker_matches: "py_in ''slide'' (py_lower (''Slide '' @ rest))"
  unfolding lower_slide_marker by simp

lemma xlsx_blocks_acc: "xlsx_blocks sheets acc = acc @ xlsx_blocks sheets []"
proof (induction sheets arbitrary: acc)
  case Nil
  show ?case by simp
next
  case (Cons sh rest)
  show ?case
    using Cons.IH [of "(acc @ [''Sheet: '' @ sheet_name sh]) @ filter (\<lambda>v. py_strip v \<noteq> []) (flat_values sh)"]
          Cons.IH [of "([] @ [''Sheet: '' @ sheet_name sh]) @ filter (\<lambda>v. py_strip v \<noteq> []) (flat_values sh)"]
    by simp
qed

lemma xlsx_blocks_head:
  assumes "xlsx_blocks sheets [] \<noteq> []"
  shows "\<exists>name. hd (xlsx_blocks sheets []) = ''Sheet: '' @ name"
proof (cases sheets)
  case Nil
  with assms show ?thesis by simp
next
  case (Cons sh rest)
  have "xlsx_blocks (sh # rest) [] =
          (([] @ [''Sheet: '' @ sheet_name sh]) @ filter (\<lambda>v. py_strip v \<noteq> []) (flat_values sh))
            @ xlsx_blocks rest []"
    using xlsx_blocks_acc [of rest "([] @ [''Sheet: '' @ sheet_name sh]) @ filter (\<lambda>v. py_strip v \<noteq> []) (flat_values sh)"]
    by simp
  with Cons show ?thesis by simp
qed

lemma pptx_blocks_acc: "pptx_blocks i slides acc = acc @ pptx_blocks i slides []"
proof (induction slides arbitrary: i acc)
  case Nil
  show ?case by simp
next
  case (Cons sl rest)
  show ?case
  proof (cases "shape_texts sl [] = []")
    case True
    then show ?thesis using Cons.IH [of "i + 1" acc] by simp
  next
    case False
    then show ?thesis
      using Cons.IH [of "i + 1" "(acc @ [''Slide '' @ str_nat i @ '':'']) @ shape_texts sl []"]
            Cons.IH [of "i + 1" "([] @ [''Slide '' @ str_nat i @ '':'']) @ shape_texts sl []"]
      by simp
  qed
qed

lemma pptx_blocks_head:
  "pptx_blocks i slides [] \<noteq> [] \<Longrightarrow>
   \<exists>n. hd (pptx_blocks i slides []) = ''Slide '' @ str_nat n @ '':''"
proof (induction slides arbitrary: i)
  case Nil
  then show ?case by simp
next
  case (Cons sl rest)
  show ?case
  proof (cases "shape_texts sl [] = []")
    case True
    with Cons.prems have "pptx_blocks (i + 1) rest [] \<noteq> []" by simp
    from Cons.IH [OF this] True show ?thesis by simp
  next
    case False
    then have "pptx_blocks i (sl # rest) [] =
                 (([] @ [''Slide '' @ str_nat i @ '':'']) @ shape_texts sl [])
                   @ pptx_blocks (i + 1) rest []"
      using pptx_blocks_acc [of "i + 1" rest "([] @ [''Slide '' @ str_nat i @ '':'']) @ shape_texts sl []"]
      by simp
    then show ?thesis by auto
  qed
qed

lemma swan_checks_marker_strengths:
  assumes "ps \<noteq> []" and "ext = ''.xlsx'' \<or> ext = ''.pptx''"
  shows "\<exists>r. swan_checks ext doc ps = Inr r
            \<and> (list_ex (\<lambda>p. py_in ''sheet:'' (py_lower p)) ps \<longrightarrow>
                 ''Your work is organised into clear sections or sheets.'' \<in> set (strengths r))
            \<and> (list_ex (\<lambda>p. py_in ''slide'' (py_lower p)) ps \<longrightarrow>
                 ''Your slides are clearly separated and labelled.'' \<in> set (strengths r))"
  using assms
  by (auto simp: swan_checks_def py_last_def Let_def split: prod.splits)


lemma extract_xlsx_blocks:
  assumes "extract_by_ext file ''.xlsx'' = Some (Inr (doc, ps))"
  shows "\<exists>sheets. ps = xlsx_blocks sheets []"
  using assms
  by (auto simp: extract_by_ext_def extract_text_from_xlsx_def split: upload.splits)

lemma extract_pptx_blocks:
  assumes "extract_by_ext file ''.pptx'' = Some (Inr (doc, ps))"
  shows "\<exists>slides. ps = pptx_blocks 1 slides []"
  using assms
  by (auto simp: extract_by_ext_def extract_text_from_pptx_def split: upload.splits)

lemma extract_one_sheet:
  "extract_by_ext (ExcelFile [\<lparr>sheet_name = ''Data'', flat_values = [''42'', '' '']\<rparr>]) ''.xlsx''
     = Some (Inr (None, [''Sheet: Data'', ''42'']))"
  by code_simp

lemma extract_two_slides:
  "extract_by_ext (PowerPointFile [[None, Some ''  ''], [Some '' Title '', Some ''Body'']]) ''.pptx''
     = Some (Inr (None, [''Slide 2:'', ''Title'', ''Body'']))"
  by code_simp

text \<open>
  C10. For an \<open>.xlsx\<close> upload whose extraction yields a block, the first block is a
  marker "Sheet: <name>", which the case-insensitive "sheet:" check matches, so the
  strengths contain "Your work is organised into clear sections or sheets."; for a
  \<open>.pptx\<close> upload whose extraction yields a block, the first block is a marker
  "Slide <n>:", which the "slide" check matches, so the strengths contain
  "Your slides are clearly separated and labelled.".
\<close>

theorem marker_blocks_give_structure_strengths:
  "(extract_by_ext file ''.xlsx'' = Some (Inr (doc, ps)) \<and> ps \<noteq> [] \<longrightarrow>
      (\<exists>name. hd ps = ''Sheet: '' @ name)
      \<and> (\<exists>r. run_swan_analysis file ''.xlsx'' = Inr r
             \<and> ''Your work is organised into clear sections or sheets.'' \<in> set (strengths r)))
   \<and> (extract_by_ext file ''.pptx'' = Some (Inr (doc, ps)) \<and> ps \<noteq> [] \<longrightarrow>
      (\<exists>n. hd ps = ''Slide '' @ str_nat n @ '':'')
      \<and> (\<exists>r. run_swan_analysis file ''.pptx'' = Inr r
             \<and> ''Your slides are clearly separated and labelled.'' \<in> set (strengths r)))"
proof (intro conjI impI)
  assume a: "extract_by_ext file ''.xlsx'' = Some (Inr (doc, ps)) \<and> ps \<noteq> []"
  then obtain sheets where "ps = xlsx_blocks sheets []"
    using extract_xlsx_blocks by blast
  with a show "\<exists>name. hd ps = ''Sheet: '' @ name"
    using xlsx_blocks_head by simp
next
  assume a: "extract_by_ext file ''.xlsx'' = Some (Inr (doc, ps)) \<and> ps \<noteq> []"
  then obtain sheets where "ps = xlsx_blocks sheets []"
    using extract_xlsx_blocks by blast
  with a obtain name where "hd ps = ''Sheet: '' @ name"
    using xlsx_blocks_head by auto
  with a have "''Sheet: '' @ name \<in> set ps"
    by (metis hd_in_set)
  then have m: "list_ex (\<lambda>p. py_in ''sheet:'' (py_lower p)) ps"
    unfolding list_ex_iff using sheet_marker_matches by blast
  from a have "run_swan_analysis file ''.xlsx'' = swan_checks ''.xlsx'' doc ps"
    by (simp add: run_analysed)
  with a m swan_checks_marker_strengths [of ps "''.xlsx''" doc]
  show "\<exists>r. run_swan_analysis file ''.xlsx'' = Inr r
             \<and> ''Your work is organised into clear sections or sheets.'' \<in> set (strengths r)"
    by auto
next
  assume a: "extract_by_ext file ''.pptx'' = Some (Inr (doc, ps)) \<and> ps \<noteq> []"
  then obtain slides where "ps = pptx_blocks 1 slides []"
    using extract_pptx_blocks by blast
  with a show "\<exists>n. hd ps = ''Slide '' @ str_nat n @ '':''"
    using pptx_blocks_head by simp
next
  assume a: "extract_by_ext file ''.pptx'' = Some (Inr (doc, ps)) \<and> ps \<noteq> []"
  then obtain slides where "ps = pptx_blocks 1 slides []"
    using extract_pptx_blocks by blast
  with a obtain n where "hd ps = ''Slide '' @ str_nat n @ '':''"
    using pptx_blocks_head by auto
  with a have "''Slide '' @ str_nat n @ '':'' \<in> set ps"
    by (metis hd_in_set)
  then have m: "list_ex (\<lambda>p. py_in ''slide'' (py_lower p)) ps"
    unfolding list_ex_iff using slide_marker_matches by blast
  from a have "run_swan_analysis file ''.pptx'' = swan_checks ''.pptx'' doc ps"
    by (simp add: run_analysed)
  with a m swan_checks_marker_strengths [of ps "''.pptx''" doc]
  show "\<exists>r. run_swan_analysis file ''.pptx'' = Inr r
             \<and> ''Your slides are clearly separated and labelled.'' \<in> set (strengths r)"
    by auto
qed

theorem marker_blocks_give_structure_strengths_witness:
  "extract_by_ext (ExcelFile [\<lparr>sheet_name = ''Data'', flat_values = [''42'', '' '']\<rparr>]) ''.xlsx''
     = Some (Inr (None, [''Sheet: Data'', ''42'']))
   \<and> (\<exists>r. run_swan_analysis (ExcelFile [\<lparr>sheet_name = ''Data'', flat_values = [''42'', '' '']\<rparr>]) ''.xlsx'' = Inr r
          \<and> ''Your work is organised into clear sections or sheets.'' \<in> set (strengths r))
   \<and> extract_by_ext (PowerPointFile [[None, Some ''  ''], [Some '' Title '', Some ''Body'']]) ''.pptx''
     = Some (Inr (None, [''Slide 2:'', ''Title'', ''Body'']))
   \<and> (\<exists>r. run_swan_analysis (PowerPointFile [[None, Some ''  ''], [Some '' Title '', Some ''Body'']]) ''.pptx'' = Inr r
          \<and> ''Your slides are clearly separated and labelled.'' \<in> set (strengths r))"
proof -
  have n1: "[''Sheet: Data'', ''42''] \<noteq> []" and n2: "[''Slide 2:'', ''Title'', ''Body''] \<noteq> []"
    by simp_all
  show ?thesis
    using marker_blocks_give_structure_strengths
            [of "ExcelFile [\<lparr>sheet_name = ''Data'', flat_values = [''42'', '' '']\<rparr>]" None
                "[''Sheet: Data'', ''42'']"]
          marker_blocks_give_structure_strengths
            [of "PowerPointFile [[None, Some ''  ''], [Some '' Title '', Some ''Body'']]" None
                "[''Slide 2:'', ''Title'', ''Body'']"]
          extract_one_sheet extract_two_slides n1 n2
    by blast
qed

subsection \<open>The downloadable report\<close>

lemma py_join_Cons: "ys \<noteq> [] \<Longrightarrow> py_join sep (x # ys) = x @ sep @ py_join sep ys"
  by (cases ys) simp_all

lemma py_join_append:
  "xs \<noteq> [] \<Longrightarrow> ys \<noteq> [] \<Longrightarrow> py_join sep (xs @ ys) = py_join sep xs @ sep @ py_join sep ys"
proof (induction sep xs rule: py_join.induct)
  case (1 sep)
  then show ?case by simp
next
  case (2 sep x)
  then show ?case by (simp add: py_join_Cons)
next
  case (3 sep x y ys)
  then show ?case by simp
qed

lemma py_join_section:
  "py_join nl (section_lines heading entries) = (heading @ nl) @ py_join nl (map dash_entry entries)"
  by (cases "entries = []") (simp_all add: section_lines_def py_join_Cons)

lemma section_lines_nonempty: "section_lines heading entries \<noteq> []"
  by (simp add: section_lines_def)

lemma report_text_lines: "report_text name r = py_join nl (report_lines name r)"
proof -
  let ?S = "section_lines ''STRENGTHS:'' (strengths r)"
  let ?W = "section_lines ''WEAKNESSES:'' (weaknesses r)"
  let ?A = "section_lines ''ACTIONS:'' (actions r)"
  let ?N = "section_lines ''NEXT STEPS:'' (next_steps r)"
  have 1: "py_join nl (?A @ [[]] @ ?N) = py_join nl ?A @ nl @ nl @ py_join nl ?N"
    by (simp add: py_join_append py_join_Cons section_lines_nonempty)
  have 2: "py_join nl (?W @ [[]] @ ?A @ [[]] @ ?N)
             = py_join nl ?W @ nl @ nl @ py_join nl (?A @ [[]] @ ?N)"
    by (simp add: py_join_append py_join_Cons section_lines_nonempty)
  have 3: "py_join nl (?S @ [[]] @ ?W @ [[]] @ ?A @ [[]] @ ?N)
             = py_join nl ?S @ nl @ nl @ py_join nl (?W @ [[]] @ ?A @ [[]] @ ?N)"
    by (simp add: py_join_append py_join_Cons section_lines_nonempty)
  have 4: "py_join nl (report_lines name r)
             = (''SWAN Feedback Report: '' @ name) @ nl @ replicate 30 CHR ''='' @ nl @ nl
                 @ py_join nl (?S @ [[]] @ ?W @ [[]] @ ?A @ [[]] @ ?N)"
    unfolding report_lines_def
    by (simp add: py_join_Cons section_lines_nonempty)
  show ?thesis
    unfolding 4 3 2 1 py_join_section
    by (simp add: report_text_def Let_def)
qed


lemma split_nl_line:
  "CHR 0x0A \<notin> set l \<Longrightarrow> split_nl (l @ CHR 0x0A # rest) = l # split_nl rest"
  by (induction l) auto

lemma split_nl_single: "CHR 0x0A \<notin> set l \<Longrightarrow> split_nl l = [l]"
  by (induction l) auto

lemma split_nl_join_sep:
  "sep = [CHR 0x0A] \<Longrightarrow> ls \<noteq> [] \<Longrightarrow> \<forall>l \<in> set ls. CHR 0x0A \<notin> set l \<Longrightarrow>
   split_nl (py_join sep ls) = ls"
proof (induction sep ls rule: py_join.induct)
  case (1 sep)
  then show ?case by simp
next
  case (2 sep x)
  then show ?case by (simp add: split_nl_single)
next
  case (3 sep x y ys)
  then show ?case by (simp add: split_nl_line)
qed

lemma split_nl_join:
  "ls \<noteq> [] \<Longrightarrow> \<forall>l \<in> set ls. CHR 0x0A \<notin> set l \<Longrightarrow> split_nl (py_join nl ls) = ls"
  by (simp add: split_nl_join_sep nl_def)


lemma report_lines_no_newline:
  assumes "CHR 0x0A \<notin> set name"
    and "\<forall>e \<in> set (strengths r @ weaknesses r @ actions r @ next_steps r). CHR 0x0A \<notin> set e"
  shows "\<forall>l \<in> set (report_lines name r). CHR 0x0A \<notin> set l"
  using assms
  by (auto simp: report_lines_def section_lines_def dash_entry_def)

text \<open>
  C8. For every file name and every report, the downloadable text is the lines of
  \<open>report_lines\<close> joined by newlines: it begins with the line
  "SWAN Feedback Report: <filename>" followed by a line of 30 equals signs, and has the
  sections STRENGTHS:, WEAKNESSES:, ACTIONS:, NEXT STEPS: in that order, each with one
  line "- <entry>" for every entry of its list, however many there are. When neither the
  name nor an entry contains a newline, splitting the text at newlines gives back exactly
  these lines.
\<close>

theorem report_text_structure:
  "report_text name r = py_join nl (report_lines name r)
   \<and> prefix ((''SWAN Feedback Report: '' @ name) @ nl @ replicate 30 CHR ''='' @ nl)
        (report_text name r)
   \<and> (CHR 0x0A \<notin> set name
        \<and> (\<forall>e \<in> set (strengths r @ weaknesses r @ actions r @ next_steps r). CHR 0x0A \<notin> set e)
      \<longrightarrow> split_nl (report_text name r) = report_lines name r)"
proof (intro conjI impI)
  show "report_text name r = py_join nl (report_lines name r)"
    by (rule report_text_lines)
next
  show "prefix ((''SWAN Feedback Report: '' @ name) @ nl @ replicate 30 CHR ''='' @ nl)
          (report_text name r)"
    by (simp add: report_text_def Let_def)
next
  assume a: "CHR 0x0A \<notin> set name
      \<and> (\<forall>e \<in> set (strengths r @ weaknesses r @ actions r @ next_steps r). CHR 0x0A \<notin> set e)"
  have "report_lines name r \<noteq> []" by (simp add: report_lines_def)
  moreover from a have "\<forall>l \<in> set (report_lines name r). CHR 0x0A \<notin> set l"
    using report_lines_no_newline by blast
  ultimately show "split_nl (report_text name r) = report_lines name r"
    by (simp add: report_text_lines split_nl_join)
qed

lemma sample_report_lines:
  "report_lines ''essay.docx''
     \<lparr>strengths = [''s1'', ''s2'', ''s3'', ''s4'', ''s5'', ''s6''], weaknesses = [''w1''],
      actions = [''a1''], next_steps = []\<rparr>
   = [''SWAN Feedback Report: essay.docx'', ''=============================='', [],
      ''STRENGTHS:'', ''- s1'', ''- s2'', ''- s3'', ''- s4'', ''- s5'', ''- s6'', [],
      ''WEAKNESSES:'', ''- w1'', [],
      ''ACTIONS:'', ''- a1'', [],
      ''NEXT STEPS:'', []]"
  by code_simp

theorem report_text_structure_witness:
  "CHR 0x0A \<notin> set ''essay.docx''
   \<and> list_all (\<lambda>e. CHR 0x0A \<notin> set e)
        ([''s1'', ''s2'', ''s3'', ''s4'', ''s5'', ''s6''] @ [''w1''] @ [''a1''] @ [])
   \<and> split_nl (report_text ''essay.docx''
        \<lparr>strengths = [''s1'', ''s2'', ''s3'', ''s4'', ''s5'', ''s6''], weaknesses = [''w1''],
         actions = [''a1''], next_steps = []\<rparr>)
     = [''SWAN Feedback Report: essay.docx'', ''=============================='', [],
        ''STRENGTHS:'', ''- s1'', ''- s2'', ''- s3'', ''- s4'', ''- s5'', ''- s6'', [],
        ''WEAKNESSES:'', ''- w1'', [],
        ''ACTIONS:'', ''- a1'', [],
        ''NEXT STEPS:'', []]"
proof -
  have n: "CHR 0x0A \<notin> set ''essay.docx''" by simp
  have e: "list_all (\<lambda>e. CHR 0x0A \<notin> set e)
        ([''s1'', ''s2'', ''s3'', ''s4'', ''s5'', ''s6''] @ [''w1''] @ [''a1''] @ [])"
    by simp
  let ?R = "\<lparr>strengths = [''s1'', ''s2'', ''s3'', ''s4'', ''s5'', ''s6''], weaknesses = [''w1''],
             actions = [''a1''], next_steps = []\<rparr>"
  have e': "\<forall>e \<in> set (strengths ?R @ weaknesses ?R @ actions ?R @ next_steps ?R).
              CHR 0x0A \<notin> set e"
    by simp
  have "split_nl (report_text ''essay.docx'' ?R) = report_lines ''essay.docx'' ?R"
    using report_text_structure [of "''essay.docx''" ?R, THEN conjunct2, THEN conjunct2] n e'
    by blast
  with n e show ?thesis by (simp only: sample_report_lines simp_thms)
qed

subsection \<open>Repeated words\<close>

lemma letter_is_word: "is_ascii_letter c \<Longrightarrow> is_word_char c"
  by (auto simp: is_ascii_letter_def is_word_char_def Let_def)

lemma runs_nonempty: "runs P s \<noteq> []"
  by (induction s) (auto split: list.splits)

lemma hd_runs: "hd (runs P s) = takeWhile P s"
  by (induction s) (auto split: list.splits simp: runs_nonempty)

lemma tl_runs:
  "tl (runs P s) = (case dropWhile P s of [] \<Rightarrow> [] | d # r \<Rightarrow> runs P r)"
proof (induction s)
  case Nil
  show ?case by simp
next
  case (Cons c cs)
  obtain l ls where r: "runs P cs = l # ls"
    using runs_nonempty [of P cs] by (cases "runs P cs") auto
  show ?case
  proof (cases "P c")
    case True
    with r Cons show ?thesis by simp
  next
    case False
    then show ?thesis by simp
  qed
qed

lemma runs_split: "runs P s = takeWhile P s # tl (runs P s)"
  using runs_nonempty [of P s] hd_runs [of P s] by (cases "runs P s") auto

lemma tl_runs_dropWhile: "tl (runs P (dropWhile P s)) = tl (runs P s)"
proof (cases "dropWhile P s")
  case Nil
  then show ?thesis by (simp add: tl_runs)
next
  case (Cons d r)
  then have "\<not> P d" by (metis hd_dropWhile list.sel(1) list.distinct(1))
  with Cons show ?thesis by (simp add: tl_runs)
qed


lemma try_ends_below:
  assumes "k < length (takeWhile is_ascii_letter s)"
  shows "try_ends s k = None"
  using assms
proof (induction k)
  case 0
  show ?case by simp
next
  case (Suc k)
  let ?n = "length (takeWhile is_ascii_letter s)"
  from Suc.prems have k: "k < ?n" and sk: "Suc k < ?n" by simp_all
  have len: "?n \<le> length s" by (simp add: length_takeWhile_le)
  have "is_ascii_letter (s ! k)" and "is_ascii_letter (s ! Suc k)"
    using k sk by (metis nth_length_takeWhile takeWhile_nth nth_mem set_takeWhileD)+
  then have "is_word_char (s ! k)" and "is_word_char (s ! Suc k)"
    by (simp_all add: letter_is_word)
  moreover have "k < length s" and "Suc k < length s" using k sk len by simp_all
  ultimately have "\<not> at_boundary (char_at s k) (char_at s (Suc k))"
    by (simp add: at_boundary_def char_at_def word_side_def)
  with Suc.IH [OF k] show ?case by simp
qed


lemma takeWhile_letter_word:
  "takeWhile is_word_char s = takeWhile is_ascii_letter s \<longleftrightarrow>
   \<not> word_side (char_at s (length (takeWhile is_ascii_letter s)))"
proof (induction s)
  case Nil
  show ?case by (simp add: char_at_def word_side_def)
next
  case (Cons c cs)
  show ?case
  proof (cases "is_ascii_letter c")
    case True
    then have "is_word_char c" by (rule letter_is_word)
    with True Cons show ?thesis by (simp add: char_at_def)
  next
    case False
    then show ?thesis by (simp add: char_at_def word_side_def)
  qed
qed

lemma all_letters_word_run:
  "list_all is_ascii_letter (takeWhile is_word_char s) \<longleftrightarrow>
   takeWhile is_word_char s = takeWhile is_ascii_letter s"
proof (induction s)
  case Nil
  show ?case by simp
next
  case (Cons c cs)
  show ?case
  proof (cases "is_ascii_letter c")
    case True
    then have "is_word_char c" by (rule letter_is_word)
    with True Cons show ?thesis by simp
  next
    case False
    then show ?thesis by simp
  qed
qed

lemma try_ends_letters:
  "try_ends s (length (takeWhile is_ascii_letter s)) =
     (if 3 \<le> length (takeWhile is_ascii_letter s)
         \<and> \<not> word_side (char_at s (length (takeWhile is_ascii_letter s)))
      then Some (length (takeWhile is_ascii_letter s)) else None)"
proof (cases "length (takeWhile is_ascii_letter s)")
  case 0
  then show ?thesis by simp
next
  case (Suc m)
  let ?n = "length (takeWhile is_ascii_letter s)"
  have m: "m < ?n" using Suc by simp
  have "?n \<le> length s" by (simp add: length_takeWhile_le)
  with m have ml: "m < length s" by simp
  have "is_ascii_letter (s ! m)"
    using m by (metis nth_length_takeWhile takeWhile_nth nth_mem set_takeWhileD)
  then have "is_word_char (s ! m)" by (rule letter_is_word)
  with ml have b: "at_boundary (char_at s m) (char_at s (Suc m)) \<longleftrightarrow> \<not> word_side (char_at s (Suc m))"
    by (simp add: at_boundary_def char_at_def word_side_def)
  have "try_ends s m = None" using m by (rule try_ends_below)
  with b Suc show ?thesis by auto
qed

lemma match_at_char:
  "match_at prev s =
     (if \<not> word_side prev \<and> ok_token (takeWhile is_word_char s)
      then Some (length (takeWhile is_word_char s)) else None)"
proof (cases s)
  case Nil
  then show ?thesis
    by (simp add: match_at_def ok_token_def at_boundary_def char_at_def)
next
  case (Cons c cs)
  show ?thesis
  proof (cases "is_word_char c")
    case False
    then have "\<not> is_ascii_letter c" using letter_is_word by blast
    with False Cons show ?thesis
      by (simp add: match_at_def ok_token_def at_boundary_def char_at_def word_side_def)
  next
    case True
    show ?thesis
    proof (cases "word_side prev")
      case wp: True
      with True Cons show ?thesis
        by (simp add: match_at_def at_boundary_def char_at_def word_side_def)
    next
      case wp: False
      with True Cons have "match_at prev s = try_ends s (length (takeWhile is_ascii_letter s))"
        by (simp add: match_at_def at_boundary_def char_at_def word_side_def)
      also have "\<dots> = (if ok_token (takeWhile is_word_char s)
                       then Some (length (takeWhile is_word_char s)) else None)"
        unfolding try_ends_letters ok_token_def all_letters_word_run
        using takeWhile_letter_word [of s] by auto
      finally show ?thesis using wp by simp
    qed
  qed
qed


lemma findall_runs:
  "findall prev s =
     filter ok_token (if word_side prev then tl (runs is_word_char s) else runs is_word_char s)"
proof (induction prev s rule: findall.induct)
  case (1 prev)
  show ?case by (simp add: ok_token_def)
next
  case (2 prev c cs)
  let ?s = "c # cs"
  let ?W = "takeWhile is_word_char ?s"
  have split: "runs is_word_char ?s = ?W # tl (runs is_word_char ?s)"
    by (rule runs_split)
  show ?case
  proof (cases "match_at prev ?s")
    case None
    then have nok: "word_side prev \<or> \<not> ok_token ?W"
      by (simp add: match_at_char split: if_splits)
    from None have step: "findall prev ?s = findall (Some c) cs"
      by (simp add: findall.simps(2))
    have ih: "findall (Some c) cs =
                filter ok_token (if is_word_char c then tl (runs is_word_char cs)
                                 else runs is_word_char cs)"
      using "2.IH"(1) [OF None] by (simp add: word_side_def)
    obtain l ls where r: "runs is_word_char cs = l # ls"
      using runs_nonempty [of is_word_char cs] by (cases "runs is_word_char cs") auto
    show ?thesis
    proof (cases "is_word_char c")
      case True
      with r have rs: "runs is_word_char ?s = (c # l) # ls" by simp
      with split have w: "?W = c # l" by simp
      show ?thesis
      proof (cases "word_side prev")
        case True
        with step ih rs r \<open>is_word_char c\<close> show ?thesis by simp
      next
        case False
        with nok w have "\<not> ok_token (c # l)" by simp
        with step ih rs r False \<open>is_word_char c\<close> show ?thesis by simp
      qed
    next
      case False
      then have rs: "runs is_word_char ?s = [] # runs is_word_char cs" by simp
      have "\<not> ok_token []" by (simp add: ok_token_def)
      with step ih rs False show ?thesis by simp
    qed
  next
    case (Some k)
    then have np: "\<not> word_side prev" and ok: "ok_token ?W" and k: "k = length ?W"
      by (simp_all add: match_at_char split: if_splits)
    from ok have k3: "3 \<le> k" using k by (simp add: ok_token_def)
    have tk: "take k ?s = ?W" using k by (metis takeWhile_eq_take)
    have dk: "drop k ?s = dropWhile is_word_char ?s" using k by (metis dropWhile_eq_drop)
    have kl: "k - 1 < length ?W" using k k3 by simp
    then have "?W ! (k - 1) \<in> set ?W" by (rule nth_mem)
    then have "is_word_char (?W ! (k - 1))" by (metis set_takeWhileD)
    moreover have "?W ! (k - 1) = ?s ! (k - 1)" using kl by (rule takeWhile_nth)
    moreover have "k - 1 < length ?s"
      using kl length_takeWhile_le [of is_word_char ?s] by simp
    ultimately have wl: "word_side (char_at ?s (k - 1))"
      by (simp add: char_at_def word_side_def)
    from Some have step: "findall prev ?s = take k ?s # findall (char_at ?s (k - 1)) (drop k ?s)"
      by (simp add: findall.simps(2))
    have "findall (char_at ?s (k - 1)) (drop k ?s)
            = filter ok_token (tl (runs is_word_char (drop k ?s)))"
      using "2.IH"(2) [OF Some] wl by simp
    also have "\<dots> = filter ok_token (tl (runs is_word_char ?s))"
      unfolding dk by (simp only: tl_runs_dropWhile)
    finally have rest: "findall (char_at ?s (k - 1)) (drop k ?s)
            = filter ok_token (tl (runs is_word_char ?s))" .
    have "filter ok_token (runs is_word_char ?s)
            = ?W # filter ok_token (tl (runs is_word_char ?s))"
      using split ok by (metis filter.simps(2))
    with step tk rest np show ?thesis by simp
  qed
qed

lemma findall_word_tokens: "findall None s = word_tokens s"
proof -
  have "(\<lambda>w. 3 \<le> length w \<and> list_all is_ascii_letter w) = ok_token"
    by (simp add: ok_token_def fun_eq_iff)
  then show ?thesis
    by (simp add: findall_runs word_tokens_def word_side_def)
qed


lemma counter_add_keys: "fst ` set (counter_add kvs w) = insert w (fst ` set kvs)"
  by (induction kvs w rule: counter_add.induct) auto

lemma counter_add_distinct:
  "distinct (map fst kvs) \<Longrightarrow> distinct (map fst (counter_add kvs w))"
proof (induction kvs w rule: counter_add.induct)
  case (1 w)
  show ?case by simp
next
  case (2 k c rest w)
  then show ?case using counter_add_keys [of rest w] by auto
qed

lemma counter_add_tally: "tally (counter_add kvs w) v = tally kvs v + (if v = w then 1 else 0)"
  by (induction kvs w rule: counter_add.induct) (auto simp: tally_def)

lemma foldl_counter_distinct:
  "distinct (map fst kvs) \<Longrightarrow> distinct (map fst (foldl counter_add kvs ws))"
  by (induction ws arbitrary: kvs) (simp_all add: counter_add_distinct)

lemma foldl_counter_tally:
  "tally (foldl counter_add kvs ws) v = tally kvs v + count_list ws v"
  by (induction ws arbitrary: kvs) (simp_all add: counter_add_tally)

lemma Counter_distinct: "distinct (map fst (Counter ws))"
  by (simp add: Counter_def foldl_counter_distinct)

lemma Counter_tally: "tally (Counter ws) v = count_list ws v"
  unfolding Counter_def foldl_counter_tally by (simp add: tally_def)

lemma Counter_items: "(w, c) \<in> set (Counter ws) \<Longrightarrow> c = count_list ws w"
proof -
  assume "(w, c) \<in> set (Counter ws)"
  then have "map_of (Counter ws) w = Some c"
    using Counter_distinct by simp
  then have "tally (Counter ws) w = c" by (simp add: tally_def)
  then show ?thesis by (simp add: Counter_tally)
qed

lemma Counter_has: "0 < count_list ws w \<Longrightarrow> (w, count_list ws w) \<in> set (Counter ws)"
proof -
  assume p: "0 < count_list ws w"
  then have "tally (Counter ws) w = count_list ws w" by (simp add: Counter_tally)
  with p obtain c where "map_of (Counter ws) w = Some c" and "c = count_list ws w"
    by (auto simp: tally_def split: option.splits)
  then show ?thesis by (auto dest: map_of_SomeD)
qed

lemma repeated_set:
  "set (map fst (filter (\<lambda>(w, c). c \<ge> 3) (Counter ws))) = {w. 3 \<le> count_list ws w}"
proof (intro set_eqI iffI)
  fix w assume "w \<in> set (map fst (filter (\<lambda>(w, c). c \<ge> 3) (Counter ws)))"
  then obtain c where "(w, c) \<in> set (Counter ws)" and "3 \<le> c" by auto
  then show "w \<in> {w. 3 \<le> count_list ws w}" using Counter_items by auto
next
  fix w assume "w \<in> {w. 3 \<le> count_list ws w}"
  then have c: "3 \<le> count_list ws w" by simp
  then have "(w, count_list ws w) \<in> set (Counter ws)" by (simp add: Counter_has)
  with c show "w \<in> set (map fst (filter (\<lambda>(w, c). c \<ge> 3) (Counter ws)))" by force
qed

lemma repeated_distinct: "distinct (map fst (filter (\<lambda>(w, c). c \<ge> 3) (Counter ws)))"
  using Counter_distinct [of ws] by (rule distinct_map_filter)

lemma find_spelling_issues_tokens:
  "find_spelling_issues ps =
     map fst (filter (\<lambda>(w, c). c \<ge> 3) (Counter (word_tokens (py_lower (py_join '' '' ps)))))"
  by (simp add: find_spelling_issues_def findall_word_tokens Let_def)

lemma word_tokens_shape: "w \<in> set (word_tokens s) \<Longrightarrow> 3 \<le> length w \<and> list_all is_ascii_letter w"
  by (simp add: word_tokens_def)

text \<open>
  C5, as stated: the words are the alphabetic runs of length at least 3 of the lower-cased
  concatenation of the blocks, and the result is the set of those occurring 3 or more
  times. It fails in two ways. In "abc1 abc1 abc1" the run "abc" occurs three times, but
  the pattern's closing \<open>\b\<close> does not match between a letter and a digit, so nothing
  is returned. For the three blocks "abc", "abc", "abc" the concatenation is the single
  run "abcabcabc", but the blocks are joined with spaces, so "abc" is returned.
\<close>

theorem find_spelling_issues_not_plain_letter_runs:
  "find_spelling_issues [''abc1 abc1 abc1''] = []
   \<and> count_list (alphabetic_runs (py_lower (concat [''abc1 abc1 abc1'']))) ''abc'' = 3
   \<and> find_spelling_issues [''abc'', ''abc'', ''abc''] = [''abc'']
   \<and> count_list (alphabetic_runs (py_lower (concat [''abc'', ''abc'', ''abc'']))) ''abc'' = 0"
  by code_simp

text \<open>
  C5, amended: \<open>find_spelling_issues\<close> lower-cases the blocks joined by single spaces,
  takes as words the maximal runs of \<open>\w\<close> characters (letters, digits, underscore) that
  consist of ASCII letters only and have at least 3 of them, counts the occurrences of
  each word, and returns exactly the set of words that occur 3 or more times, each once.
  In particular every returned word has at least 3 letters, all of them ASCII letters, and
  occurs at least 3 times among the words of the text.
\<close>

theorem find_spelling_issues_repeated_tokens:
  "distinct (find_spelling_issues ps)
   \<and> set (find_spelling_issues ps)
       = {w. 3 \<le> count_list (word_tokens (py_lower (py_join '' '' ps))) w}
   \<and> (\<forall>w \<in> set (find_spelling_issues ps).
         3 \<le> length w \<and> list_all is_ascii_letter w
         \<and> 3 \<le> count_list (word_tokens (py_lower (py_join '' '' ps))) w)"
proof (intro conjI ballI)
  show "distinct (find_spelling_issues ps)"
    by (simp only: find_spelling_issues_tokens repeated_distinct)
next
  show s: "set (find_spelling_issues ps)
       = {w. 3 \<le> count_list (word_tokens (py_lower (py_join '' '' ps))) w}"
    by (simp only: find_spelling_issues_tokens repeated_set)
  fix w assume "w \<in> set (find_spelling_issues ps)"
  with s have c: "3 \<le> count_list (word_tokens (py_lower (py_join '' '' ps))) w" by simp
  then have "w \<in> set (word_tokens (py_lower (py_join '' '' ps)))"
    by (metis count_list_0_iff not_numeral_le_zero)
  then have "3 \<le> length w \<and> list_all is_ascii_letter w" by (rule word_tokens_shape)
  with c show "3 \<le> length w" and "list_all is_ascii_letter w"
    and "3 \<le> count_list (word_tokens (py_lower (py_join '' '' ps))) w"
    by simp_all
qed

lemma sample_repeats:
  "find_spelling_issues [''The cat. The dog'', ''THE end the9 the''] = [''the'']"
  by code_simp

theorem find_spelling_issues_repeated_tokens_witness:
  "''the'' \<in> set (find_spelling_issues [''The cat. The dog'', ''THE end the9 the''])
   \<and> 3 \<le> length ''the'' \<and> list_all is_ascii_letter ''the''
   \<and> 3 \<le> count_list (word_tokens (py_lower (py_join '' '' [''The cat. The dog'', ''THE end the9 the'']))) ''the''"
proof -
  have m: "''the'' \<in> set (find_spelling_issues [''The cat. The dog'', ''THE end the9 the''])"
    by (simp only: sample_repeats) simp
  with find_spelling_issues_repeated_tokens [of "[''The cat. The dog'', ''THE end the9 the'']"]
  show ?thesis by blast
qed

end
